theory Spec2Isabelle
  imports Main "HOL-Library.Word" "HOL-Library.Code_Target_Numeral"
begin

unbundle bit_operations_syntax

section \<open>Values of the program\<close>

text \<open>
  The script \<^verbatim>\<open>generate_authelia_hash.py\<close> is a flat procedure.  Its values are
  Python \<^verbatim>\<open>bytes\<close> objects (lists of 8-bit words), Python \<^verbatim>\<open>str\<close> objects and
  unbounded integers.  The password is the only \<^verbatim>\<open>str\<close> that is ever encoded, so it is
  kept as the list of its Unicode code points; every text the script prints is ASCII and
  is kept as an Isabelle \<open>string\<close>.
\<close>

type_synonym byte = "8 word"
type_synonym bytes = "byte list"
type_synonym w64 = "64 word"
type_synonym pystr = "nat list"

datatype error =
    UnicodeEncodeError nat   \<comment> \<open>the code point that has no UTF-8 encoding\<close>
  | ValueError

section \<open>\<^verbatim>\<open>str.encode()\<close>: strict UTF-8\<close>

text \<open>
  \<^verbatim>\<open>password.encode()\<close> uses the codec \<^verbatim>\<open>utf-8\<close> with the handler \<^verbatim>\<open>strict\<close>:
  a surrogate code point (\<open>U+D800\<close> to \<open>U+DFFF\<close>) raises \<^verbatim>\<open>UnicodeEncodeError\<close>.
  Such code points do reach the script: an argument whose bytes are not UTF-8 is decoded
  into \<^verbatim>\<open>sys.argv\<close> with \<^verbatim>\<open>surrogateescape\<close>.  A \<^verbatim>\<open>str\<close> holds no code point above
  \<open>U+10FFFF\<close>, so the last branch is the four-byte form.
\<close>

definition is_surrogate :: "nat \<Rightarrow> bool" where
  "is_surrogate c \<longleftrightarrow> 0xD800 \<le> c \<and> c \<le> 0xDFFF"

definition utf8_char :: "nat \<Rightarrow> error + bytes" where
  "utf8_char c =
     (if c < 0x80 then Inr [of_nat c]
      else if c < 0x800 then Inr [of_nat (0xC0 + c div 64), of_nat (0x80 + c mod 64)]
      else if is_surrogate c then Inl (UnicodeEncodeError c)
      else if c < 0x10000 then
        Inr [of_nat (0xE0 + c div 4096), of_nat (0x80 + (c div 64) mod 64),
             of_nat (0x80 + c mod 64)]
      else
        Inr [of_nat (0xF0 + c div 262144), of_nat (0x80 + (c div 4096) mod 64),
             of_nat (0x80 + (c div 64) mod 64), of_nat (0x80 + c mod 64)])"

fun encode :: "pystr \<Rightarrow> error + bytes" where
  "encode [] = Inr []"
| "encode (c # cs) =
     (case utf8_char c of
        Inl e \<Rightarrow> Inl e
      | Inr b \<Rightarrow> (case encode cs of Inl e \<Rightarrow> Inl e | Inr bs \<Rightarrow> Inr (b @ bs)))"

section \<open>\<^verbatim>\<open>hashlib.pbkdf2_hmac('sha512', ...)\<close>\<close>

subsection \<open>SHA-512 (FIPS 180-4)\<close>

definition rotr :: "nat \<Rightarrow> w64 \<Rightarrow> w64" where
  "rotr n x = drop_bit n x OR push_bit (64 - n) x"

definition Ch :: "w64 \<Rightarrow> w64 \<Rightarrow> w64 \<Rightarrow> w64" where
  "Ch x y z = (x AND y) XOR (NOT x AND z)"

definition Maj :: "w64 \<Rightarrow> w64 \<Rightarrow> w64 \<Rightarrow> w64" where
  "Maj x y z = (x AND y) XOR (x AND z) XOR (y AND z)"

definition Sum0 :: "w64 \<Rightarrow> w64" where
  "Sum0 x = rotr 28 x XOR rotr 34 x XOR rotr 39 x"

definition Sum1 :: "w64 \<Rightarrow> w64" where
  "Sum1 x = rotr 14 x XOR rotr 18 x XOR rotr 41 x"

definition sig0 :: "w64 \<Rightarrow> w64" where
  "sig0 x = rotr 1 x XOR rotr 8 x XOR drop_bit 7 x"

definition sig1 :: "w64 \<Rightarrow> w64" where
  "sig1 x = rotr 19 x XOR rotr 61 x XOR drop_bit 6 x"

definition K512 :: "w64 list" where
  "K512 =
    [0x428A2F98D728AE22, 0x7137449123EF65CD, 0xB5C0FBCFEC4D3B2F,
     0xE9B5DBA58189DBBC, 0x3956C25BF348B538, 0x59F111F1B605D019,
     0x923F82A4AF194F9B, 0xAB1C5ED5DA6D8118, 0xD807AA98A3030242,
     0x12835B0145706FBE, 0x243185BE4EE4B28C, 0x550C7DC3D5FFB4E2,
     0x72BE5D74F27B896F, 0x80DEB1FE3B1696B1, 0x9BDC06A725C71235,
     0xC19BF174CF692694, 0xE49B69C19EF14AD2, 0xEFBE4786384F25E3,
     0x0FC19DC68B8CD5B5, 0x240CA1CC77AC9C65, 0x2DE92C6F592B0275,
     0x4A7484AA6EA6E483, 0x5CB0A9DCBD41FBD4, 0x76F988DA831153B5,
     0x983E5152EE66DFAB, 0xA831C66D2DB43210, 0xB00327C898FB213F,
     0xBF597FC7BEEF0EE4, 0xC6E00BF33DA88FC2, 0xD5A79147930AA725,
     0x06CA6351E003826F, 0x142929670A0E6E70, 0x27B70A8546D22FFC,
     0x2E1B21385C26C926, 0x4D2C6DFC5AC42AED, 0x53380D139D95B3DF,
     0x650A73548BAF63DE, 0x766A0ABB3C77B2A8, 0x81C2C92E47EDAEE6,
     0x92722C851482353B, 0xA2BFE8A14CF10364, 0xA81A664BBC423001,
     0xC24B8B70D0F89791, 0xC76C51A30654BE30, 0xD192E819D6EF5218,
     0xD69906245565A910, 0xF40E35855771202A, 0x106AA07032BBD1B8,
     0x19A4C116B8D2D0C8, 0x1E376C085141AB53, 0x2748774CDF8EEB99,
     0x34B0BCB5E19B48A8, 0x391C0CB3C5C95A63, 0x4ED8AA4AE3418ACB,
     0x5B9CCA4F7763E373, 0x682E6FF3D6B2B8A3, 0x748F82EE5DEFB2FC,
     0x78A5636F43172F60, 0x84C87814A1F0AB72, 0x8CC702081A6439EC,
     0x90BEFFFA23631E28, 0xA4506CEBDE82BDE9, 0xBEF9A3F7B2C67915,
     0xC67178F2E372532B, 0xCA273ECEEA26619C, 0xD186B8C721C0C207,
     0xEADA7DD6CDE0EB1E, 0xF57D4F7FEE6ED178, 0x06F067AA72176FBA,
     0x0A637DC5A2C898A6, 0x113F9804BEF90DAE, 0x1B710B35131C471B,
     0x28DB77F523047D84, 0x32CAAB7B40C72493, 0x3C9EBE0A15C9BEBC,
     0x431D67C49C100D4C, 0x4CC5D4BECB3E42B6, 0x597F299CFC657E2A,
     0x5FCB6FAB3AD6FAEC, 0x6C44198C4A475817]"

text \<open>The eight working variables \<open>a\<close> to \<open>h\<close>, also the hash value between blocks.\<close>

type_synonym sha_state = "w64 \<times> w64 \<times> w64 \<times> w64 \<times> w64 \<times> w64 \<times> w64 \<times> w64"

definition H512 :: sha_state where
  "H512 =
    (0x6A09E667F3BCC908, 0xBB67AE8584CAA73B,
     0x3C6EF372FE94F82B, 0xA54FF53A5F1D36F1,
     0x510E527FADE682D1, 0x9B05688C2B3E6C1F,
     0x1F83D9ABFB41BD6B, 0x5BE0CD19137E2179)"

definition be64 :: "w64 \<Rightarrow> bytes" where
  "be64 w = map (\<lambda>i. ucast (drop_bit (8 * (7 - i)) w)) [0..<8]"

definition from_be :: "bytes \<Rightarrow> w64" where
  "from_be bs = foldl (\<lambda>acc b. push_bit 8 acc OR ucast b) 0 bs"

fun be_nat :: "nat \<Rightarrow> nat \<Rightarrow> bytes" where
  \<comment> \<open>the \<open>k\<close> low-order bytes of \<open>n\<close>, most significant first\<close>
  "be_nat 0 n = []"
| "be_nat (Suc k) n = be_nat k (n div 256) @ [of_nat (n mod 256)]"

definition sha512_pad :: "bytes \<Rightarrow> bytes" where
  "sha512_pad m =
     m @ [0x80] @ replicate ((239 - length m mod 128) mod 128) 0 @ be_nat 16 (8 * length m)"

function split_blocks :: "nat \<Rightarrow> 'a list \<Rightarrow> 'a list list" where
  "split_blocks n xs =
     (if n = 0 \<or> xs = [] then [] else take n xs # split_blocks n (drop n xs))"
  by pat_completeness auto
termination
  by (relation "measure (\<lambda>(n, xs). length xs)") auto

fun schedule :: "nat \<Rightarrow> w64 list \<Rightarrow> w64 list" where
  "schedule 0 ws = ws"
| "schedule (Suc n) ws =
     (let t = length ws
      in schedule n
           (ws @ [sig1 (ws ! (t - 2)) + ws ! (t - 7) + sig0 (ws ! (t - 15)) + ws ! (t - 16)]))"

fun sha_round :: "w64 \<times> w64 \<Rightarrow> sha_state \<Rightarrow> sha_state" where
  "sha_round (k, w) (a, b, c, d, e, f, g, h) =
     (let T1 = h + Sum1 e + Ch e f g + k + w;
          T2 = Sum0 a + Maj a b c
      in (T1 + T2, a, b, c, d + T1, e, f, g))"

fun add_state :: "sha_state \<Rightarrow> sha_state \<Rightarrow> sha_state" where
  "add_state (a, b, c, d, e, f, g, h) (a', b', c', d', e', f', g', h') =
     (a + a', b + b', c + c', d + d', e + e', f + f', g + g', h + h')"

definition compress :: "bytes \<Rightarrow> sha_state \<Rightarrow> sha_state" where
  "compress block st =
     (let ws = schedule 64 (map from_be (split_blocks 8 block))
      in add_state st (fold sha_round (zip K512 ws) st))"

fun state_bytes :: "sha_state \<Rightarrow> bytes" where
  "state_bytes (a, b, c, d, e, f, g, h) =
     be64 a @ be64 b @ be64 c @ be64 d @ be64 e @ be64 f @ be64 g @ be64 h"

definition sha512 :: "bytes \<Rightarrow> bytes" where
  "sha512 m = state_bytes (fold compress (split_blocks 128 (sha512_pad m)) H512)"

subsection \<open>HMAC (RFC 2104) and PBKDF2 (RFC 8018)\<close>

definition hmac_sha512 :: "bytes \<Rightarrow> bytes \<Rightarrow> bytes" where
  "hmac_sha512 key msg =
     (let k0 = (if 128 < length key then sha512 key else key);
          k = k0 @ replicate (128 - length k0) 0
      in sha512 (map (\<lambda>b. b XOR 0x5C) k @ sha512 (map (\<lambda>b. b XOR 0x36) k @ msg)))"

definition xor_bytes :: "bytes \<Rightarrow> bytes \<Rightarrow> bytes" where
  "xor_bytes xs ys = map (\<lambda>(x, y). x XOR y) (zip xs ys)"

fun pbkdf2_loop :: "bytes \<Rightarrow> nat \<Rightarrow> bytes \<Rightarrow> bytes \<Rightarrow> bytes" where
  "pbkdf2_loop pw 0 u t = t"
| "pbkdf2_loop pw (Suc n) u t =
     (let u' = hmac_sha512 pw u in pbkdf2_loop pw n u' (xor_bytes t u'))"

definition pbkdf2_F :: "bytes \<Rightarrow> bytes \<Rightarrow> nat \<Rightarrow> nat \<Rightarrow> bytes" where
  \<comment> \<open>block \<open>i\<close> of the derived key: \<open>U\<^sub>1 XOR ... XOR U\<^sub>c\<close>\<close>
  "pbkdf2_F pw salt c i =
     (let u1 = hmac_sha512 pw (salt @ be_nat 4 i) in pbkdf2_loop pw (c - 1) u1 u1)"

definition pbkdf2 :: "bytes \<Rightarrow> bytes \<Rightarrow> nat \<Rightarrow> nat \<Rightarrow> bytes" where
  "pbkdf2 pw salt c dklen =
     take dklen (concat (map (pbkdf2_F pw salt c) [1..<Suc ((dklen + 63) div 64)]))"

text \<open>
  \<^verbatim>\<open>hashlib.pbkdf2_hmac\<close> at the hash name \<^verbatim>\<open>'sha512'\<close>, the only one the script passes.
  The call leaves \<^verbatim>\<open>dklen\<close> out, so the key has the digest size of SHA-512, 64 bytes.
  The library raises \<^verbatim>\<open>ValueError\<close> for an iteration count below 1.  It also refuses
  a password or a salt of more than \<open>2\<^sup>3\<^sup>1 - 1\<close> bytes; no command-line argument is that
  long, and the model carries no such bound.
\<close>

definition pbkdf2_hmac_sha512 :: "bytes \<Rightarrow> bytes \<Rightarrow> int \<Rightarrow> error + bytes" where
  "pbkdf2_hmac_sha512 pw salt iters =
     (if iters < 1 then Inl ValueError else Inr (pbkdf2 pw salt (nat iters) 64))"

section \<open>\<^verbatim>\<open>base64.b64encode\<close>, \<^verbatim>\<open>str.rstrip\<close>, \<^verbatim>\<open>str(int)\<close> and slices\<close>

definition b64_alphabet :: string where
  "b64_alphabet = ''ABCDEFGHIJKLMNOPQRSTUVWXYZabcdefghijklmnopqrstuvwxyz0123456789+/''"

definition b64_char :: "nat \<Rightarrow> char" where
  "b64_char n = b64_alphabet ! n"

text \<open>
  RFC 4648, section 4: three input bytes give four 6-bit groups; a final group of one or
  two bytes is filled with zero bits and padded with \<open>=\<close>.  The 6-bit groups are read
  off the unsigned values of the bytes.  The result of \<^verbatim>\<open>b64encode\<close> is ASCII, so the
  \<^verbatim>\<open>.decode()\<close> that follows it in the script is the identity on this representation.
\<close>

fun b64encode :: "bytes \<Rightarrow> string" where
  "b64encode [] = []"
| "b64encode [a] =
     [b64_char (unat a div 4), b64_char (unat a mod 4 * 16), CHR ''='', CHR ''='']"
| "b64encode [a, b] =
     [b64_char (unat a div 4), b64_char (unat a mod 4 * 16 + unat b div 16),
      b64_char (unat b mod 16 * 4), CHR ''='']"
| "b64encode (a # b # c # bs) =
     [b64_char (unat a div 4), b64_char (unat a mod 4 * 16 + unat b div 16),
      b64_char (unat b mod 16 * 4 + unat c div 64), b64_char (unat c mod 64)]
     @ b64encode bs"

definition rstrip :: "char \<Rightarrow> string \<Rightarrow> string" where
  \<comment> \<open>\<^verbatim>\<open>s.rstrip(c)\<close> for a single character \<open>c\<close>: every trailing \<open>c\<close> is removed\<close>
  "rstrip c s = rev (dropWhile (\<lambda>x. x = c) (rev s))"

definition digit_char :: "nat \<Rightarrow> char" where
  "digit_char d = ''0123456789'' ! d"

fun str_nat :: "nat \<Rightarrow> string" where
  "str_nat n = (if n < 10 then [digit_char n] else str_nat (n div 10) @ [digit_char (n mod 10)])"

declare str_nat.simps [simp del]

definition py_str :: "int \<Rightarrow> string" where
  \<comment> \<open>the decimal text of an integer, as \<^verbatim>\<open>str\<close> and an f-string field produce it\<close>
  "py_str i = (if i < 0 then CHR ''-'' # str_nat (nat (- i)) else str_nat (nat i))"

definition slice :: "'a list \<Rightarrow> nat \<Rightarrow> nat \<Rightarrow> 'a list" where
  \<comment> \<open>\<^verbatim>\<open>s[i:j]\<close> for indices that are not negative: both ends are clipped to the length\<close>
  "slice s i j = take (j - i) (drop i s)"

section \<open>The script\<close>

text \<open>
  The world the script acts on: the lines written to standard output so far, and the
  bytes the operating system's random source will hand out next.  \<^verbatim>\<open>os.urandom(n)\<close>
  takes the next \<open>n\<close> of them.
\<close>

record world =
  stdout :: "string list"
  entropy :: "nat \<Rightarrow> byte"

definition print :: "string \<Rightarrow> world \<Rightarrow> world" where
  "print line w = w\<lparr>stdout := stdout w @ [line]\<rparr>"

definition urandom :: "nat \<Rightarrow> world \<Rightarrow> bytes \<times> world" where
  "urandom n w = (map (entropy w) [0..<n], w\<lparr>entropy := (\<lambda>i. entropy w (i + n))\<rparr>)"

text \<open>
  How a run ends: \<^verbatim>\<open>sys.exit(1)\<close> and falling off the end of the script give an exit
  status; an exception nobody catches ends the run with that exception.
\<close>

datatype status = Exit int | Uncaught error

text \<open>
  The script, line by line.  \<open>print\<close> appends one line to standard output and is taken to
  succeed.  \<open>full_hash\<close> is the f-string of the script, with \<open>b64_salt\<close> and \<open>b64_hash\<close>
  as the script computes them from the salt and the derived key.
\<close>

definition usage :: string where
  "usage = ''Usage: python3 generate_authelia_hash.py <password>''"

definition iterations :: int where
  "iterations = 310000"

definition digest :: string where
  "digest = ''sha512''"

definition full_hash :: "bytes \<Rightarrow> bytes \<Rightarrow> string" where
  "full_hash salt dk =
     (let b64_salt = rstrip (CHR ''='') (b64encode salt);
          b64_hash = rstrip (CHR ''='') (b64encode dk)
      in ''$pbkdf2-'' @ digest @ ''$'' @ py_str iterations @ ''$'' @ b64_salt @ ''$'' @ b64_hash)"

definition chunk_line :: "nat \<Rightarrow> string \<Rightarrow> string" where
  "chunk_line k chunk = ''Chunk '' @ py_str (int k) @ '': '' @ chunk"

text \<open>
  The loop \<^verbatim>\<open>for i in range(0, len(full_hash), 50)\<close>, entered with the loop variable at
  \<open>i\<close>; its body prints one line.
\<close>

function chunk_loop :: "nat \<Rightarrow> string \<Rightarrow> world \<Rightarrow> world" where
  "chunk_loop i s w =
     (if i < length s
      then chunk_loop (i + 50) s (print (chunk_line (i div 50) (slice s i (i + 50))) w)
      else w)"
  by pat_completeness auto
termination
  by (relation "measure (\<lambda>(i, s, w). length s - i)") auto

declare chunk_loop.simps [simp del]

definition length_line :: "string \<Rightarrow> string" where
  "length_line s = ''Length: '' @ py_str (int (length s))"

definition main :: "pystr list \<Rightarrow> world \<Rightarrow> status \<times> world" where
  "main argv w =
     (if length argv < 2 then (Exit 1, print usage w)
      else
        let password = argv ! 1;
            (salt, w1) = urandom 16 w
        in case encode password of
             Inl e \<Rightarrow> (Uncaught e, w1)
           | Inr pw \<Rightarrow>
               (case pbkdf2_hmac_sha512 pw salt iterations of
                  Inl e \<Rightarrow> (Uncaught e, w1)
                | Inr dk \<Rightarrow>
                    let fh = full_hash salt dk;
                        w2 = print (length_line fh) w1
                    in (Exit 0, chunk_loop 0 fh w2)))"

section \<open>Notions of the specification\<close>

text \<open>
  The definitions of this section are not part of the script: they are the yardsticks the
  properties below are stated with.
\<close>

text \<open>
  RFC 4648, section 3.2: the encoding with the padding left out.  The same 6-bit groups as
  \<open>b64encode\<close>, and no \<open>=\<close>.
\<close>

fun b64_nopad :: "bytes \<Rightarrow> string" where
  "b64_nopad [] = []"
| "b64_nopad [a] = [b64_char (unat a div 4), b64_char (unat a mod 4 * 16)]"
| "b64_nopad [a, b] =
     [b64_char (unat a div 4), b64_char (unat a mod 4 * 16 + unat b div 16),
      b64_char (unat b mod 16 * 4)]"
| "b64_nopad (a # b # c # bs) =
     [b64_char (unat a div 4), b64_char (unat a mod 4 * 16 + unat b div 16),
      b64_char (unat b mod 16 * 4 + unat c div 64), b64_char (unat c mod 64)]
     @ b64_nopad bs"

text \<open>The character class \<^verbatim>\<open>[A-Za-z0-9+/]\<close>, by character codes.\<close>

definition b64_class :: "char \<Rightarrow> bool" where
  "b64_class c \<longleftrightarrow>
     (let n = (of_char c :: nat)
      in (65 \<le> n \<and> n \<le> 90) \<or> (97 \<le> n \<and> n \<le> 122) \<or> (48 \<le> n \<and> n \<le> 57) \<or> n = 43 \<or> n = 47)"

text \<open>
  The language of the regular expression
  \<^verbatim>\<open>^\$pbkdf2-sha512\$310000\$[A-Za-z0-9+/]+\$[A-Za-z0-9+/]+$\<close>.
\<close>

definition authelia_format :: "string \<Rightarrow> bool" where
  "authelia_format s \<longleftrightarrow>
     (\<exists>a b. s = ''$pbkdf2-sha512$310000$'' @ a @ ''$'' @ b \<and>
            a \<noteq> [] \<and> list_all b64_class a \<and> b \<noteq> [] \<and> list_all b64_class b)"



text \<open>\<^verbatim>\<open>s.split(c)\<close> for a single character \<open>c\<close>.\<close>

fun split_on :: "char \<Rightarrow> string \<Rightarrow> string list" where
  "split_on c [] = [[]]"
| "split_on c (x # xs) =
     (if x = c then [] # split_on c xs
      else (case split_on c xs of [] \<Rightarrow> [[x]] | y # ys \<Rightarrow> (x # y) # ys))"

text \<open>
  A \<^verbatim>\<open>str\<close> of ASCII characters, and a world whose standard output is still empty and
  whose random source delivers the bytes 0, 1, 2, ...; they serve as concrete inputs.
\<close>

definition ascii :: "string \<Rightarrow> pystr" where
  "ascii s = map of_char s"

definition example_world :: world where
  "example_world = \<lparr>stdout = [], entropy = of_nat\<rparr>"

definition example_argv :: "pystr list" where
  "example_argv = [ascii ''generate_authelia_hash.py'', ascii ''hunter2'']"

definition example_pw :: bytes where
  "example_pw = [104, 117, 110, 116, 101, 114, 50]"

definition example_salt :: bytes where
  "example_salt = fst (urandom 16 example_world)"

definition example_world' :: world where
  "example_world' = snd (urandom 16 example_world)"

section \<open>Auxiliary facts\<close>

subsection \<open>The models of the library functions on known values\<close>

text \<open>
  The examples of RFC 4648, section 10; one code point of each encoded length and a lone
  surrogate; a positive and a negative integer.  All definitions of the development are
  executable, the hash functions included.
\<close>

lemma b64encode_rfc4648:
  "b64encode (map of_char ''foobar'') = ''Zm9vYmFy''"
  "b64encode (map of_char ''fooba'') = ''Zm9vYmE=''"
  "b64encode (map of_char ''foob'') = ''Zm9vYg==''"
  by (simp_all add: b64_char_def b64_alphabet_def)

lemma encode_examples:
  "encode [0x68, 0xE9, 0x20AC, 0x1F600] = Inr [0x68, 0xC3, 0xA9, 0xE2, 0x82, 0xAC, 0xF0, 0x9F, 0x98, 0x80]"
  "encode [0x68, 0xDCFF] = Inl (UnicodeEncodeError 0xDCFF)"
  by (simp_all add: utf8_char_def is_surrogate_def)

lemma py_str_examples: "py_str 310000 = ''310000''" "py_str (- 45) = ''-45''"
  by (simp_all add: py_str_def str_nat.simps digit_char_def)

subsection \<open>The derived key has 64 bytes\<close>

lemma length_be64: "length (be64 w) = 8"
  by (simp add: be64_def)

lemma length_state_bytes: "length (state_bytes st) = 64"
  by (induction st rule: state_bytes.induct) (simp add: length_be64)

lemma length_sha512: "length (sha512 m) = 64"
  by (simp add: sha512_def length_state_bytes)

lemma length_hmac_sha512: "length (hmac_sha512 key msg) = 64"
  by (simp add: hmac_sha512_def Let_def length_sha512)

lemma length_pbkdf2_loop: "length t = 64 \<Longrightarrow> length (pbkdf2_loop pw n u t) = 64"
proof (induction n arbitrary: u t)
  case 0
  then show ?case by simp
next
  case (Suc n)
  have "length (xor_bytes t (hmac_sha512 pw u)) = 64"
    using Suc.prems by (simp add: xor_bytes_def length_hmac_sha512)
  then show ?case
    by (simp add: Let_def Suc.IH)
qed

lemma length_pbkdf2_F: "length (pbkdf2_F pw salt c i) = 64"
  by (simp add: pbkdf2_F_def Let_def length_pbkdf2_loop length_hmac_sha512)

lemma pbkdf2_one_block: "pbkdf2 pw salt c 64 = pbkdf2_F pw salt c 1"
  by (simp add: pbkdf2_def length_pbkdf2_F)

lemma length_pbkdf2: "length (pbkdf2 pw salt c 64) = 64"
  by (simp add: pbkdf2_one_block length_pbkdf2_F)

lemma pbkdf2_hmac_sha512_ok:
  "pbkdf2_hmac_sha512 pw salt iterations = Inr (pbkdf2 pw salt 310000 64)"
  by (simp add: pbkdf2_hmac_sha512_def iterations_def)

subsection \<open>Base64: the alphabet, the padding, injectivity\<close>

lemma byte_bound: "unat (a :: byte) < 256"
proof -
  have "unat a < 2 ^ LENGTH(8)"
    by (rule unsigned_less)
  then show ?thesis by simp
qed

lemma length_b64_alphabet: "length b64_alphabet = 64"
  by (simp add: b64_alphabet_def)

lemma distinct_b64_alphabet: "distinct b64_alphabet"
  by (simp add: b64_alphabet_def)

lemma b64_alphabet_class: "list_all b64_class b64_alphabet"
  by (simp add: b64_alphabet_def b64_class_def)

lemma b64_char_class: "n < 64 \<Longrightarrow> b64_class (b64_char n)"
  using b64_alphabet_class length_b64_alphabet
  by (simp add: b64_char_def list_all_length)

lemma b64_char_inj: "i < 64 \<Longrightarrow> j < 64 \<Longrightarrow> b64_char i = b64_char j \<Longrightarrow> i = j"
  using distinct_b64_alphabet length_b64_alphabet
  by (simp add: b64_char_def nth_eq_iff_index_eq)

lemma hi4: "b < 256 \<Longrightarrow> b div 16 < (16::nat)"
  by arith

lemma hi2: "c < 256 \<Longrightarrow> c div 64 < (4::nat)"
  by arith

lemma sextet1: "unat (a :: byte) div 4 < 64"
  using byte_bound [of a] by arith

lemma sextet2: "unat (a :: byte) mod 4 * 16 + unat (b :: byte) div 16 < 64"
proof -
  have "unat a mod 4 < 4" by simp
  moreover have "unat b div 16 < 16" by (rule hi4) (rule byte_bound)
  ultimately show ?thesis by arith
qed

lemma sextet2': "unat (a :: byte) mod 4 * 16 < 64"
proof -
  have "unat a mod 4 < 4" by simp
  then show ?thesis by arith
qed

lemma sextet3: "unat (b :: byte) mod 16 * 4 + unat (c :: byte) div 64 < 64"
proof -
  have "unat b mod 16 < 16" by simp
  moreover have "unat c div 64 < 4" by (rule hi2) (rule byte_bound)
  ultimately show ?thesis by arith
qed

lemma sextet3': "unat (b :: byte) mod 16 * 4 < 64"
proof -
  have "unat b mod 16 < 16" by simp
  then show ?thesis by arith
qed

lemma sextet4: "unat (c :: byte) mod 64 < 64"
  by simp

lemmas sextet_bounds = sextet1 sextet2 sextet2' sextet3 sextet3' sextet4

lemma b64_nopad_class: "list_all b64_class (b64_nopad bs)"
  by (induction bs rule: b64_nopad.induct)
     (simp_all add: b64_char_class sextet_bounds)

lemma pad_step: "(3 - (n + 3) mod 3) mod 3 = (3 - n mod 3) mod (3::nat)"
  by simp

lemma b64encode_nopad:
  "b64encode bs = b64_nopad bs @ replicate ((3 - length bs mod 3) mod 3) (CHR ''='')"
proof (induction bs rule: b64_nopad.induct)
  case 1
  show ?case by simp
next
  case (2 a)
  show ?case by (simp add: numeral_2_eq_2)
next
  case (3 a b)
  show ?case by simp
next
  case (4 a b c bs)
  have len: "length (a # b # c # bs) = length bs + 3"
    by simp
  show ?case
    unfolding len pad_step using 4 by simp
qed

lemma nopad_len_step: "(4 * (n + 3) + 2) div 3 = 4 + (4 * n + 2) div (3::nat)"
  by presburger

lemma length_b64_nopad: "length (b64_nopad bs) = (4 * length bs + 2) div 3"
proof (induction bs rule: b64_nopad.induct)
  case (4 a b c bs)
  have len: "length (a # b # c # bs) = length bs + 3"
    by simp
  show ?case
    unfolding len nopad_len_step using 4 by simp
qed simp_all

lemma class_not_eq: "b64_class c \<Longrightarrow> c \<noteq> CHR ''=''"
  by (auto simp: b64_class_def)

lemma class_not_dollar: "b64_class c \<Longrightarrow> c \<noteq> CHR ''$''"
  by (auto simp: b64_class_def)

lemma dropWhile_notin: "c \<notin> set ys \<Longrightarrow> dropWhile (\<lambda>x. x = c) ys = ys"
  by (cases ys) auto

lemma rstrip_append_replicate:
  assumes "c \<notin> set xs"
  shows "rstrip c (xs @ replicate k c) = xs"
proof -
  have "dropWhile (\<lambda>x. x = c) (replicate k c @ rev xs) = dropWhile (\<lambda>x. x = c) (rev xs)"
    by (rule dropWhile_append2) simp
  moreover have "dropWhile (\<lambda>x. x = c) (rev xs) = rev xs"
    by (rule dropWhile_notin) (simp add: assms)
  ultimately show ?thesis
    by (simp add: rstrip_def)
qed

lemma rstrip_b64encode: "rstrip (CHR ''='') (b64encode bs) = b64_nopad bs"
proof -
  have "CHR ''='' \<notin> set (b64_nopad bs)"
    using b64_nopad_class [of bs] class_not_eq by (auto simp: list_all_iff)
  then show ?thesis
    by (simp add: b64encode_nopad rstrip_append_replicate)
qed

lemma pack_div: "y < n \<Longrightarrow> (x * n + y) div n = (x::nat)"
  by simp

lemma pack_mod: "y < n \<Longrightarrow> (x * n + y) mod n = (y::nat)"
  by simp

lemma div_mod_eqI:
  fixes a a' :: nat
  assumes "a div n = a' div n" "a mod n = a' mod n"
  shows "a = a'"
proof -
  have "a = a div n * n + a mod n" by simp
  also have "\<dots> = a' div n * n + a' mod n" using assms by simp
  also have "\<dots> = a'" by simp
  finally show ?thesis .
qed

lemma sextet_inj:
  fixes a a' b b' c c' :: nat
  assumes bnd: "b < 256" "c < 256" "b' < 256" "c' < 256"
    and e1: "a div 4 = a' div 4"
    and e2: "a mod 4 * 16 + b div 16 = a' mod 4 * 16 + b' div 16"
    and e3: "b mod 16 * 4 + c div 64 = b' mod 16 * 4 + c' div 64"
    and e4: "c mod 64 = c' mod 64"
  shows "a = a' \<and> b = b' \<and> c = c'"
proof -
  have "(a mod 4 * 16 + b div 16) div 16 = (a' mod 4 * 16 + b' div 16) div 16"
    and "(a mod 4 * 16 + b div 16) mod 16 = (a' mod 4 * 16 + b' div 16) mod 16"
    using e2 by simp_all
  then have a: "a mod 4 = a' mod 4" and b: "b div 16 = b' div 16"
    using bnd by (simp_all only: pack_div pack_mod hi4)
  have "(b mod 16 * 4 + c div 64) div 4 = (b' mod 16 * 4 + c' div 64) div 4"
    and "(b mod 16 * 4 + c div 64) mod 4 = (b' mod 16 * 4 + c' div 64) mod 4"
    using e3 by simp_all
  then have b': "b mod 16 = b' mod 16" and c: "c div 64 = c' div 64"
    using bnd by (simp_all only: pack_div pack_mod hi2)
  show ?thesis
    using div_mod_eqI [OF e1 a] div_mod_eqI [OF b b'] div_mod_eqI [OF c e4] by simp
qed

lemma group_inj:
  fixes a a' b b' c c' :: byte
  assumes "b64_char (unat a div 4) = b64_char (unat a' div 4)"
    and "b64_char (unat a mod 4 * 16 + unat b div 16) =
         b64_char (unat a' mod 4 * 16 + unat b' div 16)"
    and "b64_char (unat b mod 16 * 4 + unat c div 64) =
         b64_char (unat b' mod 16 * 4 + unat c' div 64)"
    and "b64_char (unat c mod 64) = b64_char (unat c' mod 64)"
  shows "a = a' \<and> b = b' \<and> c = c'"
proof -
  have "unat a div 4 = unat a' div 4"
    by (rule b64_char_inj [OF sextet1 sextet1 assms(1)])
  moreover have "unat a mod 4 * 16 + unat b div 16 = unat a' mod 4 * 16 + unat b' div 16"
    by (rule b64_char_inj [OF sextet2 sextet2 assms(2)])
  moreover have "unat b mod 16 * 4 + unat c div 64 = unat b' mod 16 * 4 + unat c' div 64"
    by (rule b64_char_inj [OF sextet3 sextet3 assms(3)])
  moreover have "unat c mod 64 = unat c' mod 64"
    by (rule b64_char_inj [OF sextet4 sextet4 assms(4)])
  ultimately have "unat a = unat a' \<and> unat b = unat b' \<and> unat c = unat c'"
    by (intro sextet_inj byte_bound)
  then show ?thesis
    by (simp add: word_unat_eq_iff)
qed

lemma b64_nopad_inj:
  "length xs = length ys \<Longrightarrow> b64_nopad xs = b64_nopad ys \<Longrightarrow> xs = ys"
proof (induction xs arbitrary: ys rule: b64_nopad.induct)
  case 1
  then show ?case by simp
next
  case (2 a)
  then obtain a' where ys: "ys = [a']"
    by (cases ys) auto
  with 2 show ?case
    using group_inj [of a a' 0 0 0 0] by simp
next
  case (3 a b)
  then obtain a' b' where ys: "ys = [a', b']"
    by (cases ys; cases "tl ys") auto
  with 3 show ?case
    using group_inj [of a a' b b' 0 0] by simp
next
  case (4 a b c bs)
  then obtain a' b' c' bs' where ys: "ys = a' # b' # c' # bs'"
    by (cases ys; cases "tl ys"; cases "tl (tl ys)") auto
  with 4 have "a = a' \<and> b = b' \<and> c = c'" and "b64_nopad bs = b64_nopad bs'"
    and "length bs = length bs'"
    using group_inj [of a a' b b' c c'] by simp_all
  with 4 ys show ?case by simp
qed

subsection \<open>Decimal numerals\<close>





lemma py_str_iterations: "py_str iterations = ''310000''"
  by (simp add: py_str_def iterations_def str_nat.simps digit_char_def)

lemma py_str_131: "py_str 131 = ''131''"
  by (simp add: py_str_def str_nat.simps digit_char_def)

lemma py_str_small: "py_str 0 = ''0''" "py_str 1 = ''1''" "py_str 2 = ''2''"
  by (simp_all add: py_str_def str_nat.simps digit_char_def)

subsection \<open>The chunk loop\<close>

lemma ceil_less: "k < (n + 49) div 50 \<longleftrightarrow> 50 * k < (n::nat)"
  by arith

lemma chunk_loop_eq:
  "chunk_loop (50 * k) s w =
     w\<lparr>stdout := stdout w @
        map (\<lambda>j. chunk_line j (take 50 (drop (50 * j) s))) [k..<(length s + 49) div 50]\<rparr>"
proof (induction "(length s + 49) div 50 - k" arbitrary: k w)
  case 0
  then have "\<not> 50 * k < length s"
    using ceil_less [of k "length s"] by simp
  with 0 show ?case
    by (subst chunk_loop.simps) simp
next
  case (Suc m)
  then have less: "k < (length s + 49) div 50"
    by simp
  then have lt: "50 * k < length s"
    by (simp add: ceil_less)
  have m: "m = (length s + 49) div 50 - Suc k"
    using Suc.hyps(2) by simp
  have step: "chunk_loop (50 * k) s w =
      chunk_loop (50 * Suc k) s (print (chunk_line k (take 50 (drop (50 * k) s))) w)"
    using lt by (subst chunk_loop.simps) (simp add: slice_def add.commute)
  show ?case
    unfolding step Suc.hyps(1) [OF m]
    using less by (simp add: print_def upt_conv_Cons)
qed

lemma concat_chunks_take:
  "concat (map (\<lambda>j. take 50 (drop (50 * j) s)) [0..<m]) = take (50 * m) s"
proof (induction m)
  case 0
  show ?case by simp
next
  case (Suc m)
  have "take (50 * m) s @ take 50 (drop (50 * m) s) = take (50 * m + 50) s"
    by (simp add: take_add)
  with Suc show ?case by (simp add: add.commute)
qed

lemma concat_chunks:
  "concat (map (\<lambda>j. take 50 (drop (50 * j) s)) [0..<(length s + 49) div 50]) = s"
proof -
  have "length s \<le> 50 * ((length s + 49) div 50)"
    by arith
  then show ?thesis
    by (simp add: concat_chunks_take)
qed

lemma chunk_full:
  assumes "Suc j < (length s + 49) div 50"
  shows "length (take 50 (drop (50 * j) s)) = 50"
proof -
  have "50 * Suc j < length s"
    using assms by (simp only: ceil_less)
  then show ?thesis by simp
qed

subsection \<open>The run of the script\<close>

lemma encode_hunter2: "encode (ascii ''hunter2'') = Inr [104, 117, 110, 116, 101, 114, 50]"
  by (simp add: ascii_def utf8_char_def)

lemma length_urandom: "urandom n w = (salt, w1) \<Longrightarrow> length salt = n"
  by (auto simp: urandom_def)

lemma stdout_urandom: "urandom n w = (salt, w1) \<Longrightarrow> stdout w1 = stdout w"
  by (auto simp: urandom_def)

lemma entropy_urandom: "urandom n w = (salt, w1) \<Longrightarrow> entropy w1 = (\<lambda>i. entropy w (i + n))"
  by (auto simp: urandom_def)

lemma full_hash_eq:
  "full_hash salt dk = ''$pbkdf2-sha512$310000$'' @ b64_nopad salt @ ''$'' @ b64_nopad dk"
  by (simp add: full_hash_def digest_def py_str_iterations rstrip_b64encode)

lemma length_full_hash:
  "length salt = 16 \<Longrightarrow> length dk = 64 \<Longrightarrow> length (full_hash salt dk) = 131"
  by (simp add: full_hash_eq length_b64_nopad)

lemma main_usage: "length argv < 2 \<Longrightarrow> main argv w = (Exit 1, w\<lparr>stdout := stdout w @ [usage]\<rparr>)"
  by (simp add: main_def print_def)

lemma main_success:
  assumes "2 \<le> length argv" and "encode (argv ! 1) = Inr pw" and "urandom 16 w = (salt, w1)"
  shows "main argv w =
     (Exit 0,
      w1\<lparr>stdout := stdout w @
           length_line (full_hash salt (pbkdf2 pw salt 310000 64)) #
           map (\<lambda>j. chunk_line j (take 50 (drop (50 * j) (full_hash salt (pbkdf2 pw salt 310000 64)))))
             [0..<(length (full_hash salt (pbkdf2 pw salt 310000 64)) + 49) div 50]\<rparr>)"
proof -
  have "\<not> length argv < 2"
    using assms(1) by simp
  then show ?thesis
    using assms(2,3) chunk_loop_eq [of 0] stdout_urandom [OF assms(3)]
    by (simp add: main_def pbkdf2_hmac_sha512_ok print_def Let_def)
qed

lemma main_encode_error:
  assumes "2 \<le> length argv" and "encode (argv ! 1) = Inl e" and "urandom 16 w = (salt, w1)"
  shows "main argv w = (Uncaught e, w1)"
proof -
  have "\<not> length argv < 2"
    using assms(1) by simp
  then show ?thesis
    using assms(2,3) by (simp add: main_def)
qed

lemma utf8_char_ok: "\<not> is_surrogate c \<Longrightarrow> \<exists>b. utf8_char c = Inr b"
  by (simp add: utf8_char_def)

lemma encode_ok: "list_all (\<lambda>c. \<not> is_surrogate c) P \<Longrightarrow> \<exists>pw. encode P = Inr pw"
proof (induction P)
  case Nil
  show ?case by simp
next
  case (Cons c cs)
  then obtain b bs where "utf8_char c = Inr b" "encode cs = Inr bs"
    using utf8_char_ok [of c] by auto
  then show ?case by simp
qed

lemma utf8_char_surrogate: "is_surrogate c \<Longrightarrow> utf8_char c = Inl (UnicodeEncodeError c)"
  by (simp add: utf8_char_def is_surrogate_def)

lemma encode_fails:
  "\<not> list_all (\<lambda>c. \<not> is_surrogate c) P \<Longrightarrow>
   \<exists>c. c \<in> set P \<and> is_surrogate c \<and> encode P = Inl (UnicodeEncodeError c)"
proof (induction P)
  case Nil
  then show ?case by simp
next
  case (Cons c cs)
  show ?case
  proof (cases "is_surrogate c")
    case True
    then show ?thesis
      by (auto simp: utf8_char_surrogate)
  next
    case False
    then obtain b where b: "utf8_char c = Inr b"
      using utf8_char_ok by blast
    from False Cons.prems have "\<not> list_all (\<lambda>c. \<not> is_surrogate c) cs"
      by simp
    then obtain c' where "c' \<in> set cs" "is_surrogate c'" "encode cs = Inl (UnicodeEncodeError c')"
      using Cons.IH by blast
    with b show ?thesis
      by auto
  qed
qed

lemma upt_3: "[0..<3] = [0, 1, 2]"
  by (simp add: upt_rec numeral_3_eq_3)

lemma full_hash_inj_salt:
  assumes "full_hash s1 k1 = full_hash s2 k2" and "length s1 = length s2"
  shows "s1 = s2"
proof -
  have "b64_nopad s1 @ ''$'' @ b64_nopad k1 = b64_nopad s2 @ ''$'' @ b64_nopad k2"
    using assms(1) by (simp add: full_hash_eq)
  moreover have "length (b64_nopad s1) = length (b64_nopad s2)"
    using assms(2) by (simp add: length_b64_nopad)
  ultimately have "b64_nopad s1 = b64_nopad s2"
    using append_eq_append_conv [of "b64_nopad s1" "b64_nopad s2"] by blast
  with assms(2) show ?thesis
    by (rule b64_nopad_inj)
qed

lemma split_on_notin: "c \<notin> set a \<Longrightarrow> split_on c a = [a]"
  by (induction a) auto

lemma split_on_append: "c \<notin> set a \<Longrightarrow> split_on c (a @ c # rest) = a # split_on c rest"
  by (induction a) auto

lemma count_list_notin: "c \<notin> set a \<Longrightarrow> count_list a c = 0"
  by (induction a) auto

lemma example_argv_length: "2 \<le> length example_argv"
  by (simp add: example_argv_def)

lemma example_encode: "encode (example_argv ! 1) = Inr example_pw"
  by (simp add: example_argv_def example_pw_def encode_hunter2)

lemma example_urandom: "urandom 16 example_world = (example_salt, example_world')"
  by (simp add: example_salt_def example_world'_def)

text \<open>
  A password that holds a lone surrogate has no UTF-8 encoding: the run ends with the
  exception, after the salt has been drawn and before anything is printed.
\<close>

lemma surrogate_password_raises:
  assumes "2 \<le> length argv" and "argv ! 1 = [0xDCFF]" and "urandom 16 w = (salt, w1)"
  shows "main argv w = (Uncaught (UnicodeEncodeError 0xDCFF), w1)"
proof -
  have "encode (argv ! 1) = Inl (UnicodeEncodeError 0xDCFF)"
    using assms(2) by (simp add: utf8_char_def is_surrogate_def)
  then show ?thesis
    by (rule main_encode_error [OF assms(1) _ assms(3)])
qed

section \<open>The claims\<close>

text \<open>
  In what follows \<open>argv\<close> is \<^verbatim>\<open>sys.argv\<close> (the script's name first), \<open>w\<close> is the world
  before the run, \<open>salt\<close> is what \<^verbatim>\<open>os.urandom(16)\<close> returns in \<open>w\<close> and \<open>pw\<close> is the
  UTF-8 encoding of the password \<open>argv ! 1\<close>.
\<close>

subsection \<open>C1\<close>

text \<open>
  C1: for every password with UTF-8 encoding \<open>pw\<close> and the 16 bytes \<open>salt\<close> the random
  source delivers, the key derivation returns the 64-byte key
  \<open>dk = PBKDF2-HMAC-SHA512(pw, salt, 310000)\<close>, and the string the script assembles and
  goes on to print is \<^verbatim>\<open>$pbkdf2-sha512$310000$\<close>, the base64 encoding of the salt with its
  trailing \<open>=\<close> stripped, \<^verbatim>\<open>$\<close>, and the base64 encoding of \<open>dk\<close> with its trailing \<open>=\<close>
  stripped.
\<close>

theorem C1_full_hash_assembled:
  assumes "2 \<le> length argv" and "encode (argv ! 1) = Inr pw" and "urandom 16 w = (salt, w1)"
  shows "let dk = pbkdf2 pw salt 310000 64; fh = full_hash salt dk
     in length salt = 16 \<and>
        pbkdf2_hmac_sha512 pw salt iterations = Inr dk \<and> length dk = 64 \<and>
        fh = ''$pbkdf2-sha512$310000$'' @ rstrip (CHR ''='') (b64encode salt)
               @ ''$'' @ rstrip (CHR ''='') (b64encode dk) \<and>
        main argv w = (Exit 0, chunk_loop 0 fh (print (length_line fh) w1))"
proof -
  have "\<not> length argv < 2"
    using assms(1) by simp
  then have "main argv w =
      (Exit 0, chunk_loop 0 (full_hash salt (pbkdf2 pw salt 310000 64))
                 (print (length_line (full_hash salt (pbkdf2 pw salt 310000 64))) w1))"
    using assms(2,3) by (simp add: main_def pbkdf2_hmac_sha512_ok Let_def)
  moreover have "full_hash salt (pbkdf2 pw salt 310000 64) =
      ''$pbkdf2-sha512$310000$'' @ rstrip (CHR ''='') (b64encode salt)
        @ ''$'' @ rstrip (CHR ''='') (b64encode (pbkdf2 pw salt 310000 64))"
    by (simp add: full_hash_def digest_def py_str_iterations)
  ultimately show ?thesis
    using length_urandom [OF assms(3)]
    by (simp only: Let_def pbkdf2_hmac_sha512_ok length_pbkdf2 simp_thms)
qed

theorem C1_full_hash_assembled_witness:
  "2 \<le> length example_argv \<and> encode (example_argv ! 1) = Inr example_pw \<and>
   urandom 16 example_world = (example_salt, example_world') \<and>
   (let dk = pbkdf2 example_pw example_salt 310000 64; fh = full_hash example_salt dk
    in length example_salt = 16 \<and>
       pbkdf2_hmac_sha512 example_pw example_salt iterations = Inr dk \<and> length dk = 64 \<and>
       fh = ''$pbkdf2-sha512$310000$'' @ rstrip (CHR ''='') (b64encode example_salt)
              @ ''$'' @ rstrip (CHR ''='') (b64encode dk) \<and>
       main example_argv example_world =
         (Exit 0, chunk_loop 0 fh (print (length_line fh) example_world')))"
  using example_argv_length example_encode example_urandom
    C1_full_hash_assembled [OF example_argv_length example_encode example_urandom]
  by blast

subsection \<open>C2\<close>




subsection \<open>C3\<close>

text \<open>
  C3: after the line \<^verbatim>\<open>Length: \<close>... the script prints, for \<open>j = 0, ..., n - 1\<close> in this
  order, the line made of \<^verbatim>\<open>Chunk \<close>, the decimal numeral of \<open>j\<close>, \<^verbatim>\<open>: \<close> and the \<open>j\<close>-th
  substring.  The substrings concatenated in this order are the full hash string; every
  substring but possibly the last has exactly 50 characters; and \<open>n\<close> is the length
  divided by 50, rounded up (the least \<open>n\<close> with \<open>length \<le> 50 * n\<close>).
\<close>

theorem C3_chunks_cover:
  assumes "2 \<le> length argv" and "encode (argv ! 1) = Inr pw" and "urandom 16 w = (salt, w1)"
  shows "let fh = full_hash salt (pbkdf2 pw salt 310000 64);
             chunk = (\<lambda>j. take 50 (drop (50 * j) fh));
             n = (length fh + 49) div 50
     in stdout (snd (main argv w)) =
          stdout w @ (''Length: '' @ py_str (int (length fh))) #
            map (\<lambda>j. ''Chunk '' @ py_str (int j) @ '': '' @ chunk j) [0..<n] \<and>
        concat (map chunk [0..<n]) = fh \<and>
        (\<forall>j. Suc j < n \<longrightarrow> length (chunk j) = 50) \<and>
        length fh \<le> 50 * n \<and> 50 * n < length fh + 50"
proof -
  have "50 * ((length s + 49) div 50) < length s + 50" "length s \<le> 50 * ((length s + 49) div 50)"
    for s :: string
    by arith+
  then show ?thesis
    by (simp add: main_success [OF assms] Let_def concat_chunks chunk_full length_line_def
        chunk_line_def)
qed

theorem C3_chunks_cover_witness:
  "2 \<le> length example_argv \<and> encode (example_argv ! 1) = Inr example_pw \<and>
   urandom 16 example_world = (example_salt, example_world') \<and>
   (let fh = full_hash example_salt (pbkdf2 example_pw example_salt 310000 64);
        chunk = (\<lambda>j. take 50 (drop (50 * j) fh));
        n = (length fh + 49) div 50
    in stdout (snd (main example_argv example_world)) =
         stdout example_world @ (''Length: '' @ py_str (int (length fh))) #
           map (\<lambda>j. ''Chunk '' @ py_str (int j) @ '': '' @ chunk j) [0..<n] \<and>
       concat (map chunk [0..<n]) = fh \<and>
       (\<forall>j. Suc j < n \<longrightarrow> length (chunk j) = 50) \<and>
       length fh \<le> 50 * n \<and> 50 * n < length fh + 50)"
  using example_argv_length example_encode example_urandom
    C3_chunks_cover [OF example_argv_length example_encode example_urandom]
  by blast

subsection \<open>C4\<close>

text \<open>
  C4: for every password (any byte string \<open>pw\<close>) and every 16-byte salt, the full hash
  string is in the language of the regular expression
  \<^verbatim>\<open>^\$pbkdf2-sha512\$310000\$[A-Za-z0-9+/]+\$[A-Za-z0-9+/]+$\<close>: it is the literal
  \<^verbatim>\<open>$pbkdf2-sha512$310000$\<close> (so the iteration field is \<^verbatim>\<open>310000\<close>), a salt segment of
  exactly 22 characters of the class, \<^verbatim>\<open>$\<close>, and a hash segment of exactly 86 characters of
  the class.
\<close>

theorem C4_format:
  assumes "length salt = 16"
  shows "let dk = pbkdf2 pw salt 310000 64;
             b64_salt = rstrip (CHR ''='') (b64encode salt);
             b64_hash = rstrip (CHR ''='') (b64encode dk);
             fh = full_hash salt dk
     in authelia_format fh \<and>
        fh = ''$pbkdf2-sha512$310000$'' @ b64_salt @ ''$'' @ b64_hash \<and>
        length b64_salt = 22 \<and> list_all b64_class b64_salt \<and>
        length b64_hash = 86 \<and> list_all b64_class b64_hash"
proof -
  let ?dk = "pbkdf2 pw salt 310000 64"
  have ls: "length (b64_nopad salt) = 22"
    using assms by (simp add: length_b64_nopad)
  have lh: "length (b64_nopad ?dk) = 86"
    by (simp add: length_b64_nopad length_pbkdf2)
  have ne: "b64_nopad salt \<noteq> []" "b64_nopad ?dk \<noteq> []"
    using ls lh by auto
  have "authelia_format (full_hash salt ?dk)"
    unfolding authelia_format_def full_hash_eq
    using ne b64_nopad_class by blast
  then show ?thesis
    using ls lh by (simp add: Let_def rstrip_b64encode full_hash_eq b64_nopad_class)
qed

theorem C4_format_witness:
  "length example_salt = 16 \<and>
   (let dk = pbkdf2 example_pw example_salt 310000 64;
        b64_salt = rstrip (CHR ''='') (b64encode example_salt);
        b64_hash = rstrip (CHR ''='') (b64encode dk);
        fh = full_hash example_salt dk
    in authelia_format fh \<and>
       fh = ''$pbkdf2-sha512$310000$'' @ b64_salt @ ''$'' @ b64_hash \<and>
       length b64_salt = 22 \<and> list_all b64_class b64_salt \<and>
       length b64_hash = 86 \<and> list_all b64_class b64_hash)"
  using length_urandom [OF example_urandom]
    C4_format [OF length_urandom [OF example_urandom]]
  by blast

subsection \<open>C5\<close>

text \<open>
  C5: with zero arguments (\<^verbatim>\<open>sys.argv\<close> holds the script's name only) the script exits
  with status 1, and the world after the run is the world before it with the usage line
  appended once to standard output: no random bytes are taken, nothing else is printed.
\<close>

theorem C5_zero_arguments:
  assumes "length argv = 1"
  shows "main argv w =
    (Exit 1, w\<lparr>stdout := stdout w @ [''Usage: python3 generate_authelia_hash.py <password>'']\<rparr>)"
  using assms by (simp add: main_usage usage_def)

theorem C5_zero_arguments_witness:
  "length [ascii ''generate_authelia_hash.py''] = 1 \<and>
   main [ascii ''generate_authelia_hash.py''] example_world =
     (Exit 1, example_world\<lparr>stdout := stdout example_world @
        [''Usage: python3 generate_authelia_hash.py <password>'']\<rparr>)"
proof -
  have h: "length [ascii ''generate_authelia_hash.py''] = 1"
    by simp
  from h C5_zero_arguments [OF h] show ?thesis
    by blast
qed

subsection \<open>C6\<close>



subsection \<open>C7\<close>

text \<open>
  C7: for a fixed password, two distinct 16-byte salts give two distinct full hash
  strings.
\<close>

theorem C7_salt_injective:
  assumes "length s1 = 16" and "length s2 = 16" and "s1 \<noteq> s2"
  shows "full_hash s1 (pbkdf2 pw s1 310000 64) \<noteq> full_hash s2 (pbkdf2 pw s2 310000 64)"
  using assms full_hash_inj_salt [of s1 "pbkdf2 pw s1 310000 64" s2 "pbkdf2 pw s2 310000 64"]
  by auto

theorem C7_salt_injective_witness:
  "length (replicate 16 (0::byte)) = 16 \<and> length (replicate 16 (1::byte)) = 16 \<and>
   replicate 16 (0::byte) \<noteq> replicate 16 1 \<and>
   full_hash (replicate 16 0) (pbkdf2 example_pw (replicate 16 0) 310000 64) \<noteq>
   full_hash (replicate 16 1) (pbkdf2 example_pw (replicate 16 1) 310000 64)"
proof -
  have h1: "length (replicate 16 (0::byte)) = 16" and h2: "length (replicate 16 (1::byte)) = 16"
    by simp_all
  have h3: "replicate 16 (0::byte) \<noteq> replicate 16 1"
    by simp
  from h1 h2 h3 C7_salt_injective [OF h1 h2 h3] show ?thesis
    by blast
qed

subsection \<open>C8\<close>

text \<open>
  C8, as stated: for every password argument the success path raises no error, and the
  missing argument check is the only error condition of the whole program.  This fails:
  \<^verbatim>\<open>password.encode()\<close> raises \<^verbatim>\<open>UnicodeEncodeError\<close> for a password that holds a
  surrogate code point, which is how \<^verbatim>\<open>sys.argv\<close> presents an argument whose bytes are not
  UTF-8.  In the run below the argument is present, the run ends with the uncaught
  exception, the salt has been drawn and nothing has been printed.
\<close>

theorem C8_surrogate_counterexample:
  "length [ascii ''generate_authelia_hash.py'', [0xDCFF]] = 2 \<and>
   main [ascii ''generate_authelia_hash.py'', [0xDCFF]] example_world =
     (Uncaught (UnicodeEncodeError 0xDCFF), example_world') \<and>
   stdout example_world' = []"
proof -
  have h1: "2 \<le> length [ascii ''generate_authelia_hash.py'', [0xDCFF::nat]]"
    by simp
  have h2: "encode ([ascii ''generate_authelia_hash.py'', [0xDCFF]] ! 1) =
      Inl (UnicodeEncodeError 0xDCFF)"
    by (simp add: utf8_char_def is_surrogate_def)
  have "stdout example_world' = []"
    using stdout_urandom [OF example_urandom] by (simp add: example_world_def)
  then show ?thesis
    using main_encode_error [OF h1 h2 example_urandom] by simp
qed

text \<open>
  C8, amended: for every password argument without a surrogate code point and every
  16-byte salt, no step of the success path raises: the password has a UTF-8 encoding,
  the key derivation returns a key, and the run ends with exit status 0 after printing
  the line \<^verbatim>\<open>Length: \<close>... and every chunk line (each one a slice
  \<^verbatim>\<open>full_hash[i:i+50]\<close>).  Besides the missing argument check the program has one more
  error condition: a password argument that holds a surrogate code point ends the run
  with \<^verbatim>\<open>UnicodeEncodeError\<close>, after the salt has been drawn and before anything is
  printed.
\<close>

theorem C8_success_path_total:
  assumes "2 \<le> length argv" and "urandom 16 w = (salt, w1)"
  shows "(list_all (\<lambda>c. \<not> is_surrogate c) (argv ! 1) \<longrightarrow>
      (\<exists>pw. encode (argv ! 1) = Inr pw \<and>
        (let dk = pbkdf2 pw salt 310000 64; fh = full_hash salt dk
         in pbkdf2_hmac_sha512 pw salt iterations = Inr dk \<and>
            main argv w =
              (Exit 0,
               w1\<lparr>stdout := stdout w @ (''Length: '' @ py_str (int (length fh))) #
                    map (\<lambda>j. ''Chunk '' @ py_str (int j) @ '': '' @
                               slice fh (50 * j) (50 * j + 50))
                      [0..<(length fh + 49) div 50]\<rparr>)))) \<and>
     (\<not> list_all (\<lambda>c. \<not> is_surrogate c) (argv ! 1) \<longrightarrow>
      (\<exists>c. c \<in> set (argv ! 1) \<and> is_surrogate c \<and>
           main argv w = (Uncaught (UnicodeEncodeError c), w1)))"
proof (intro conjI impI)
  assume "list_all (\<lambda>c. \<not> is_surrogate c) (argv ! 1)"
  then obtain pw where pw: "encode (argv ! 1) = Inr pw"
    using encode_ok by blast
  have "main argv w =
      (Exit 0,
       w1\<lparr>stdout := stdout w @
            (''Length: '' @ py_str (int (length (full_hash salt (pbkdf2 pw salt 310000 64))))) #
            map (\<lambda>j. ''Chunk '' @ py_str (int j) @ '': '' @
                   slice (full_hash salt (pbkdf2 pw salt 310000 64)) (50 * j) (50 * j + 50))
              [0..<(length (full_hash salt (pbkdf2 pw salt 310000 64)) + 49) div 50]\<rparr>)"
    by (simp add: main_success [OF assms(1) pw assms(2)] slice_def length_line_def
        chunk_line_def)
  with pw show "\<exists>pw. encode (argv ! 1) = Inr pw \<and>
        (let dk = pbkdf2 pw salt 310000 64; fh = full_hash salt dk
         in pbkdf2_hmac_sha512 pw salt iterations = Inr dk \<and>
            main argv w =
              (Exit 0,
               w1\<lparr>stdout := stdout w @ (''Length: '' @ py_str (int (length fh))) #
                    map (\<lambda>j. ''Chunk '' @ py_str (int j) @ '': '' @
                               slice fh (50 * j) (50 * j + 50))
                      [0..<(length fh + 49) div 50]\<rparr>))"
    by (auto simp only: Let_def pbkdf2_hmac_sha512_ok)
next
  assume "\<not> list_all (\<lambda>c. \<not> is_surrogate c) (argv ! 1)"
  then obtain c where c: "c \<in> set (argv ! 1)" "is_surrogate c"
      "encode (argv ! 1) = Inl (UnicodeEncodeError c)"
    using encode_fails by blast
  from main_encode_error [OF assms(1) c(3) assms(2)] c(1,2)
  show "\<exists>c. c \<in> set (argv ! 1) \<and> is_surrogate c \<and>
           main argv w = (Uncaught (UnicodeEncodeError c), w1)"
    by blast
qed

theorem C8_success_path_total_witness:
  "2 \<le> length example_argv \<and> urandom 16 example_world = (example_salt, example_world') \<and>
   list_all (\<lambda>c. \<not> is_surrogate c) (example_argv ! 1) \<and>
   (\<exists>pw. encode (example_argv ! 1) = Inr pw \<and>
     (let dk = pbkdf2 pw example_salt 310000 64; fh = full_hash example_salt dk
      in pbkdf2_hmac_sha512 pw example_salt iterations = Inr dk \<and>
         main example_argv example_world =
           (Exit 0,
            example_world'\<lparr>stdout := stdout example_world @
                 (''Length: '' @ py_str (int (length fh))) #
                 map (\<lambda>j. ''Chunk '' @ py_str (int j) @ '': '' @
                            slice fh (50 * j) (50 * j + 50))
                   [0..<(length fh + 49) div 50]\<rparr>))) \<and>
   2 \<le> length [ascii ''generate_authelia_hash.py'', [0xDCFF::nat]] \<and>
   \<not> list_all (\<lambda>c. \<not> is_surrogate c) ([ascii ''generate_authelia_hash.py'', [0xDCFF]] ! 1) \<and>
   (\<exists>c. c \<in> set ([ascii ''generate_authelia_hash.py'', [0xDCFF]] ! 1) \<and> is_surrogate c \<and>
        main [ascii ''generate_authelia_hash.py'', [0xDCFF]] example_world =
          (Uncaught (UnicodeEncodeError c), example_world'))"
proof -
  have h: "list_all (\<lambda>c. \<not> is_surrogate c) (example_argv ! 1)"
    by (simp add: example_argv_def ascii_def is_surrogate_def)
  have g1: "2 \<le> length [ascii ''generate_authelia_hash.py'', [0xDCFF::nat]]"
    by simp
  have g2: "\<not> list_all (\<lambda>c. \<not> is_surrogate c)
      ([ascii ''generate_authelia_hash.py'', [0xDCFF]] ! 1)"
    by (simp add: is_surrogate_def)
  from example_argv_length example_urandom h g1 g2
    C8_success_path_total [OF example_argv_length example_urandom]
    C8_success_path_total [OF g1 example_urandom]
  show ?thesis
    by blast
qed

subsection \<open>C9\<close>

text \<open>
  C9: the full hash string has exactly 131 characters; the script prints
  \<^verbatim>\<open>Length: 131\<close> and then exactly three chunk lines, \<^verbatim>\<open>Chunk 0\<close> and \<^verbatim>\<open>Chunk 1\<close> with 50
  characters each and \<^verbatim>\<open>Chunk 2\<close> with the remaining 31.
\<close>

theorem C9_three_chunks:
  assumes "2 \<le> length argv" and "encode (argv ! 1) = Inr pw" and "urandom 16 w = (salt, w1)"
  shows "let fh = full_hash salt (pbkdf2 pw salt 310000 64)
     in length fh = 131 \<and>
        main argv w =
          (Exit 0,
           w1\<lparr>stdout := stdout w @
             [''Length: 131'',
              ''Chunk 0: '' @ take 50 fh,
              ''Chunk 1: '' @ take 50 (drop 50 fh),
              ''Chunk 2: '' @ drop 100 fh]\<rparr>) \<and>
        length (take 50 fh) = 50 \<and> length (take 50 (drop 50 fh)) = 50 \<and>
        length (drop 100 fh) = 31"
proof -
  let ?fh = "full_hash salt (pbkdf2 pw salt 310000 64)"
  have len: "length ?fh = 131"
    by (rule length_full_hash) (simp_all add: length_urandom [OF assms(3)] length_pbkdf2)
  have last: "take 50 (drop 100 ?fh) = drop 100 ?fh"
    using len by simp
  show ?thesis
    using len last
    by (simp add: main_success [OF assms] Let_def upt_3 length_line_def chunk_line_def
        py_str_131 py_str_small)
qed

theorem C9_three_chunks_witness:
  "2 \<le> length example_argv \<and> encode (example_argv ! 1) = Inr example_pw \<and>
   urandom 16 example_world = (example_salt, example_world') \<and>
   (let fh = full_hash example_salt (pbkdf2 example_pw example_salt 310000 64)
    in length fh = 131 \<and>
       main example_argv example_world =
         (Exit 0,
          example_world'\<lparr>stdout := stdout example_world @
            [''Length: 131'',
             ''Chunk 0: '' @ take 50 fh,
             ''Chunk 1: '' @ take 50 (drop 50 fh),
             ''Chunk 2: '' @ drop 100 fh]\<rparr>) \<and>
       length (take 50 fh) = 50 \<and> length (take 50 (drop 50 fh)) = 50 \<and>
       length (drop 100 fh) = 31)"
  using example_argv_length example_encode example_urandom
    C9_three_chunks [OF example_argv_length example_encode example_urandom]
  by blast

subsection \<open>C10\<close>

text \<open>
  C10: for every password (any byte string \<open>pw\<close>) and every salt, neither base64 segment
  holds a \<^verbatim>\<open>$\<close> or a \<^verbatim>\<open>=\<close>; the full hash string holds exactly four \<^verbatim>\<open>$\<close>, and splitting
  it at \<^verbatim>\<open>$\<close> gives exactly the five fields: the empty prefix, \<^verbatim>\<open>pbkdf2-sha512\<close>,
  \<^verbatim>\<open>310000\<close>, the salt segment and the hash segment.
\<close>

theorem C10_fields:
  "let dk = pbkdf2 pw salt 310000 64;
       b64_salt = rstrip (CHR ''='') (b64encode salt);
       b64_hash = rstrip (CHR ''='') (b64encode dk);
       fh = full_hash salt dk
   in CHR ''$'' \<notin> set b64_salt \<and> CHR ''='' \<notin> set b64_salt \<and>
      CHR ''$'' \<notin> set b64_hash \<and> CHR ''='' \<notin> set b64_hash \<and>
      count_list fh (CHR ''$'') = 4 \<and>
      split_on (CHR ''$'') fh = ['''', ''pbkdf2-sha512'', ''310000'', b64_salt, b64_hash]"
proof -
  let ?dk = "pbkdf2 pw salt 310000 64"
  have notin: "CHR ''$'' \<notin> set (b64_nopad bs)" "CHR ''='' \<notin> set (b64_nopad bs)" for bs
    using b64_nopad_class [of bs] class_not_dollar class_not_eq
    by (auto simp: list_all_iff)
  have cnt: "count_list (full_hash salt ?dk) (CHR ''$'') = 4"
    by (simp add: full_hash_eq count_list_notin notin)
  have "split_on (CHR ''$'') (full_hash salt ?dk) =
      ['''', ''pbkdf2-sha512'', ''310000'', b64_nopad salt, b64_nopad ?dk]"
    by (simp add: full_hash_eq split_on_append split_on_notin notin)
  then show ?thesis
    using cnt by (simp add: Let_def rstrip_b64encode notin)
qed

end
